theory Spec2Isabelle
  imports Complex_Main "HOL-Library.Product_Lexorder" "HOL-Library.Multiset"
    "HOL-Library.Log_Nat"
begin

section \<open>Window generators over a raster (satsense/generators.py)\<close>

text \<open>
  The module defines three classes. \<open>Generator\<close> caches a padded block of one layer of an
  image and cuts windows out of it; \<open>RandomSampleGenerator\<close> and \<open>FullGenerator\<close> inherit
  from it and add an iteration policy. The classes are records here, the subclasses
  extending the base record; a method that a subclass overrides is passed as an argument
  to the base-class method that calls it, which is what dynamic dispatch does.
\<close>

subsection \<open>Exceptions\<close>

datatype error =
    RuntimeError string
  | TypeError
  | ValueError
  | KeyError
  | IndexError
  | ZeroDivisionError
  | OverflowError

text \<open>The one exception the module raises itself.\<close>

definition unloaded_error :: error where
  "unloaded_error = RuntimeError ''Please load an image first using load_image.''"

subsection \<open>Numbers\<close>

text \<open>
  Window extents, indices, step sizes and shapes are Python integers. The source mixes them
  with the float literal \<open>.5\<close> and with true division, and reads the float back with
  \<open>math.floor\<close> or \<open>math.ceil\<close>. The classes below compute these expressions on
  rationals. That is what the doubles of Python give as long as every integer involved,
  and with it its half, is a double: for magnitudes below \<open>2^53\<close>. Beyond that the float
  rounds, and an integer too large for a float raises OverflowError. The statements on the
  slice ranges and on the default shape are therefore made for integers that fit; the
  doubles themselves, and the agreement in that range, are the subject of the section on
  floats.
\<close>

definition fits_double :: "int \<Rightarrow> bool" where
  "fits_double k = (\<bar>k\<bar> < 2 ^ 53)"

definition math_ceil :: "rat \<Rightarrow> int" where
  "math_ceil x = \<lceil>x\<rceil>"

definition math_floor :: "rat \<Rightarrow> int" where
  "math_floor x = \<lfloor>x\<rfloor>"

text \<open>True division \<open>a / b\<close> of two integers, as the exact quotient.\<close>

definition true_div :: "int \<Rightarrow> int \<Rightarrow> error + rat" where
  "true_div a b = (if b = 0 then Inl ZeroDivisionError else Inr (of_int a / of_int b))"

text \<open>The builtin \<open>max\<close> over an iterable: it raises ValueError on an empty one.\<close>

fun py_max :: "int list \<Rightarrow> error + int" where
  "py_max [] = Inl ValueError"
| "py_max (x # xs) = Inr (fold max xs x)"

text \<open>\<open>range(n)\<close> for an integer \<open>n\<close>: empty when \<open>n \<le> 0\<close>.\<close>

definition py_range :: "int \<Rightarrow> int list" where
  "py_range n = [0..n - 1]"

subsection \<open>Floats\<close>

text \<open>
  A Python float is an IEEE double: a significand of 53 bits, a unit in the last place of
  at least \<open>2^-1074\<close>, and results rounded to the nearest double, a tie going to the even
  significand. \<open>exponent x\<close> is the integer \<open>e\<close> with \<open>2^e \<le> |x| < 2^(e + 1)\<close>, and
  \<open>double x\<close> the double nearest to the rational \<open>x\<close>, before any check of the range.
\<close>

definition round_half_even :: "rat \<Rightarrow> int" where
  "round_half_even y =
     (let f = \<lfloor>y\<rfloor>; r = y - of_int f
      in if r < 1 / 2 then f else if 1 / 2 < r then f + 1 else if even f then f else f + 1)"

definition exponent :: "rat \<Rightarrow> int" where
  "exponent x =
     (case quotient_of \<bar>x\<bar> of (a, b) \<Rightarrow>
        (let d = bitlen a - bitlen b in if 2 powi d \<le> \<bar>x\<bar> then d else d - 1))"

definition double :: "rat \<Rightarrow> rat" where
  "double x =
     (if x = 0 then 0
      else (let ulp = 2 powi (max (exponent x) (- 1022) - 52)
            in of_int (round_half_even (x / ulp)) * ulp))"

text \<open>
  The float expressions of the source, as the doubles compute them. An integer operand is
  converted first, which raises OverflowError when it is too large. A product too large
  becomes infinite, and \<open>math.floor\<close>, the only reader of the product below, raises
  OverflowError on an infinite float. True division of two integers is rounded once, from
  the exact quotient.
\<close>

definition py_float :: "int \<Rightarrow> error + rat" where
  "py_float k =
     (let f = double (of_int k) in if 2 ^ 1024 \<le> \<bar>f\<bar> then Inl OverflowError else Inr f)"

text \<open>\<open>.5 * window[i]\<close>\<close>

definition float_half :: "int \<Rightarrow> error + rat" where
  "float_half w =
     (case py_float w of Inl e \<Rightarrow> Inl e | Inr f \<Rightarrow> Inr (double ((1 / 2) * f)))"

text \<open>\<open>(index[i] + .5) * self.step_size[i]\<close>\<close>

definition float_cell_mid :: "int \<Rightarrow> int \<Rightarrow> error + rat" where
  "float_cell_mid i s =
     (case py_float i of
        Inl e \<Rightarrow> Inl e
      | Inr fi \<Rightarrow>
          (case py_float s of
             Inl e \<Rightarrow> Inl e
           | Inr fs \<Rightarrow>
               (let p = double (double (fi + 1 / 2) * fs)
                in if 2 ^ 1024 \<le> \<bar>p\<bar> then Inl OverflowError else Inr p)))"

text \<open>\<open>image.shape[i] / step_size[i]\<close>\<close>

definition float_true_div :: "int \<Rightarrow> int \<Rightarrow> error + rat" where
  "float_true_div a b =
     (if b = 0 then Inl ZeroDivisionError
      else (let q = double (of_int a / of_int b)
            in if 2 ^ 1024 \<le> \<bar>q\<bar> then Inl OverflowError else Inr q))"

subsection \<open>Arrays\<close>

text \<open>
  A two-dimensional numpy array: its shape and its cells. Basic slicing with two integer
  slices never raises: each bound is taken from the end when negative and clipped to the
  axis, and an empty range gives an empty axis.
\<close>

record 'a ndarray =
  nrows :: nat
  ncols :: nat
  cell :: "nat \<Rightarrow> nat \<Rightarrow> 'a"

type_synonym slice = "int \<times> int"

definition slice_clip :: "nat \<Rightarrow> int \<Rightarrow> nat" where
  "slice_clip n x = (if x < 0 then nat (max (x + int n) 0) else nat (min x (int n)))"

definition slice_start :: "nat \<Rightarrow> slice \<Rightarrow> nat" where
  "slice_start n s = slice_clip n (fst s)"

definition slice_len :: "nat \<Rightarrow> slice \<Rightarrow> nat" where
  "slice_len n s = slice_clip n (snd s) - slice_clip n (fst s)"

definition subarray :: "'a ndarray \<Rightarrow> slice \<Rightarrow> slice \<Rightarrow> 'a ndarray" where
  "subarray a s0 s1 =
     \<lparr>nrows = slice_len (nrows a) s0,
      ncols = slice_len (ncols a) s1,
      cell = (\<lambda>i j. cell a (slice_start (nrows a) s0 + i) (slice_start (ncols a) s1 + j))\<rparr>"


text \<open>
  A masked array holds no value where it is masked; \<open>filled\<close> puts the fill value there,
  and \<open>argwhere\<close> lists the positions of the non-zero cells in row-major order.
\<close>

definition filled :: "int option ndarray \<Rightarrow> int \<Rightarrow> int ndarray" where
  "filled m v =
     \<lparr>nrows = nrows m, ncols = ncols m,
      cell = (\<lambda>i j. case cell m i j of None \<Rightarrow> v | Some x \<Rightarrow> x)\<rparr>"

definition argwhere :: "int ndarray \<Rightarrow> (int \<times> int) list" where
  "argwhere a =
     concat (map (\<lambda>i. concat (map (\<lambda>j. if cell a i j \<noteq> 0 then [(int i, int j)] else [])
                                   [0..<ncols a]))
                 [0..<nrows a])"

subsection \<open>The image\<close>

text \<open>
  The class \<open>Image\<close> lives in another module. The generators read its \<open>shape\<close> and call
  \<open>copy_block\<close>, whose result is indexed by the image type; both are fields here, so every
  statement below holds for any image. The coordinate reference system and the affine
  transform are only stored by the generators and are left out.
\<close>

type_synonym block = "(int \<times> int) \<times> (int \<times> int)"

record 'a image =
  img_shape :: "int \<times> int"
  copy_block :: "block \<Rightarrow> error + (string \<rightharpoonup> 'a ndarray)"

subsection \<open>The class Generator\<close>

record 'a generator =
  img :: "'a image"
  loaded_itype :: "string option"
  image_cache :: "'a ndarray option"
  windows :: "(int \<times> int) list option"
  padding :: "(int \<times> int) option"

definition Generator_init :: "'a image \<Rightarrow> 'a generator" where
  "Generator_init im =
     \<lparr>img = im, loaded_itype = None, image_cache = None, windows = None, padding = None\<rparr>"

text \<open>\<open>_get_blocks\<close> of the base class. Reading \<open>self._padding[i]\<close> before a load is a TypeError.\<close>

definition Generator_get_blocks :: "('a, 'z) generator_scheme \<Rightarrow> error + block" where
  "Generator_get_blocks g =
     (case padding g of
        None \<Rightarrow> Inl TypeError
      | Some pad \<Rightarrow>
          Inr ((- fst pad, fst (img_shape (img g)) + fst pad),
               (- snd pad, snd (img_shape (img g)) + snd pad)))"

text \<open>
  \<open>load_image\<close>. The assignments happen in the order of the source, so a load that raises
  leaves the fields it had already set; the second component is the generator afterwards.
\<close>

definition load_image ::
  "(('a, 'z) generator_scheme \<Rightarrow> error + block) \<Rightarrow> ('a, 'z) generator_scheme \<Rightarrow> string \<Rightarrow>
   (int \<times> int) list \<Rightarrow> (error + unit) \<times> ('a, 'z) generator_scheme" where
  "load_image get_blocks g itype ws =
     (let g1 = g\<lparr>windows := Some (rev (sort ws))\<rparr> in
      case py_max (map (\<lambda>w. math_ceil (of_int (fst w))) ws) of
        Inl e \<Rightarrow> (Inl e, g1)
      | Inr p0 \<Rightarrow>
      (case py_max (map (\<lambda>w. math_ceil (of_int (snd w))) ws) of
        Inl e \<Rightarrow> (Inl e, g1)
      | Inr p1 \<Rightarrow>
      (let g2 = g1\<lparr>padding := Some (p0, p1)\<rparr> in
       case get_blocks g2 of
         Inl e \<Rightarrow> (Inl e, g2)
       | Inr blk \<Rightarrow>
       (case copy_block (img g2) blk of
         Inl e \<Rightarrow> (Inl e, g2)
       | Inr layers \<Rightarrow>
       (case layers itype of
         None \<Rightarrow> (Inl KeyError, g2)
       | Some arr \<Rightarrow>
           (Inr (), g2\<lparr>image_cache := Some arr, loaded_itype := Some itype\<rparr>))))))"

text \<open>\<open>_get_slices\<close> of the base class: the index is a pixel position.\<close>

definition Generator_get_slices ::
  "('a, 'z) generator_scheme \<Rightarrow> int \<times> int \<Rightarrow> int \<times> int \<Rightarrow> error + slice \<times> slice" where
  "Generator_get_slices g index window =
     (case padding g of
        None \<Rightarrow> Inl TypeError
      | Some pad \<Rightarrow>
          (let mid0 = fst pad + fst index;
               start0 = mid0 - math_floor ((1 / 2) * of_int (fst window));
               end0 = start0 + fst window;
               mid1 = snd pad + snd index;
               start1 = mid1 - math_floor ((1 / 2) * of_int (snd window));
               end1 = start1 + snd window
           in Inr ((start0, end0), (start1, end1))))"

text \<open>
  \<open>__getitem__\<close>: the index is \<open>(i, j, window)\<close>. There is no check of the state; before a
  load the first thing to fail is the subscript of the padding inside \<open>_get_slices\<close>.
\<close>

definition getitem ::
  "(('a, 'z) generator_scheme \<Rightarrow> int \<times> int \<Rightarrow> int \<times> int \<Rightarrow> error + slice \<times> slice) \<Rightarrow>
   ('a, 'z) generator_scheme \<Rightarrow> int \<times> int \<times> (int \<times> int) \<Rightarrow> error + 'a ndarray" where
  "getitem get_slices g index =
     (case index of (i, j, window) \<Rightarrow>
        (case get_slices g (i, j) window of
           Inl e \<Rightarrow> Inl e
         | Inr (s0, s1) \<Rightarrow>
             (case image_cache g of
                None \<Rightarrow> Inl TypeError
              | Some arr \<Rightarrow> Inr (subarray arr s0 s1))))"

definition Generator_load_image ::
  "'a generator \<Rightarrow> string \<Rightarrow> (int \<times> int) list \<Rightarrow> (error + unit) \<times> 'a generator" where
  "Generator_load_image = load_image Generator_get_blocks"

definition Generator_getitem ::
  "'a generator \<Rightarrow> int \<times> int \<times> (int \<times> int) \<Rightarrow> error + 'a ndarray" where
  "Generator_getitem = getitem Generator_get_slices"

subsection \<open>Generators as lazy sequences\<close>

text \<open>
  An \<open>__iter__\<close> with \<open>yield\<close> is a lazy sequence that ends normally or by raising. Its
  model is the list of the items yielded and the exception that ended it, if any. A \<open>for\<close>
  loop whose body yields runs the body on each element in order and stops at the first
  exception.
\<close>

type_synonym 'b yielded = "'b list \<times> error option"

fun for_yield :: "('x \<Rightarrow> 'b yielded) \<Rightarrow> 'x list \<Rightarrow> 'b yielded" where
  "for_yield body [] = ([], None)"
| "for_yield body (x # xs) =
     (case body x of
        (ys, Some e) \<Rightarrow> (ys, Some e)
      | (ys, None) \<Rightarrow> (case for_yield body xs of (zs, r) \<Rightarrow> (ys @ zs, r)))"

subsection \<open>The class FullGenerator\<close>

record 'a full_generator = "'a generator" +
  step_size :: "int \<times> int"
  offset :: "int \<times> int"
  shape :: "int \<times> int"

text \<open>
  The \<open>shape\<close> argument of \<open>__init__\<close>: \<open>None\<close> when it is omitted, some other falsy value
  (an empty tuple or list, \<open>0\<close>, \<open>False\<close>), or a pair of integers, which is a non-empty
  tuple and so truthy whatever it holds.
\<close>

datatype shape_arg = NoShape | FalsyShape | GivenShape "int \<times> int"

fun falsy :: "shape_arg \<Rightarrow> bool" where
  "falsy (GivenShape s) = False"
| "falsy shp = True"

text \<open>
  \<open>__init__\<close>. With \<open>not shape\<close>, that is for every argument but a pair, the default is
  taken: it divides the extent of the image by the step size, which raises when the step
  is zero.
\<close>

definition FullGenerator_new ::
  "'a image \<Rightarrow> int \<times> int \<Rightarrow> int \<times> int \<Rightarrow> int \<times> int \<Rightarrow> 'a full_generator" where
  "FullGenerator_new im step off shp =
     \<lparr>img = im, loaded_itype = None, image_cache = None, windows = None, padding = None,
      step_size = step, offset = off, shape = shp\<rparr>"

definition default_shape :: "'a image \<Rightarrow> int \<times> int \<Rightarrow> error + int \<times> int" where
  "default_shape im step =
     (case true_div (fst (img_shape im)) (fst step) of
        Inl e \<Rightarrow> Inl e
      | Inr q0 \<Rightarrow>
          (case true_div (snd (img_shape im)) (snd step) of
             Inl e \<Rightarrow> Inl e
           | Inr q1 \<Rightarrow> Inr (math_ceil q0, math_ceil q1)))"

definition FullGenerator_init ::
  "'a image \<Rightarrow> int \<times> int \<Rightarrow> int \<times> int \<Rightarrow> shape_arg \<Rightarrow> error + 'a full_generator" where
  "FullGenerator_init im step off shp =
     (case (case shp of GivenShape s \<Rightarrow> Inr s | _ \<Rightarrow> default_shape im step) of
        Inl e \<Rightarrow> Inl e
      | Inr s \<Rightarrow> Inr (FullGenerator_new im step off s))"

definition FullGenerator_get_blocks :: "'a full_generator \<Rightarrow> error + block" where
  "FullGenerator_get_blocks g =
     (case padding g of
        None \<Rightarrow> Inl TypeError
      | Some pad \<Rightarrow>
          (let offset0 = fst (offset g) * fst (step_size g);
               start0 = offset0 - fst pad;
               end0 = offset0 + fst pad + fst (shape g) * fst (step_size g);
               offset1 = snd (offset g) * snd (step_size g);
               start1 = offset1 - snd pad;
               end1 = offset1 + snd pad + snd (shape g) * snd (step_size g)
           in Inr ((start0, end0), (start1, end1))))"

text \<open>\<open>_get_slices\<close> of the subclass: the index counts steps.\<close>

definition FullGenerator_get_slices ::
  "'a full_generator \<Rightarrow> int \<times> int \<Rightarrow> int \<times> int \<Rightarrow> error + slice \<times> slice" where
  "FullGenerator_get_slices g index window =
     (case padding g of
        None \<Rightarrow> Inl TypeError
      | Some pad \<Rightarrow>
          (let mid0 = fst pad + math_floor ((of_int (fst index) + 1 / 2) * of_int (fst (step_size g)));
               start0 = mid0 - math_floor ((1 / 2) * of_int (fst window));
               end0 = start0 + fst window;
               mid1 = snd pad + math_floor ((of_int (snd index) + 1 / 2) * of_int (snd (step_size g)));
               start1 = mid1 - math_floor ((1 / 2) * of_int (snd window));
               end1 = start1 + snd window
           in Inr ((start0, end0), (start1, end1))))"

definition FullGenerator_load_image ::
  "'a full_generator \<Rightarrow> string \<Rightarrow> (int \<times> int) list \<Rightarrow> (error + unit) \<times> 'a full_generator" where
  "FullGenerator_load_image = load_image FullGenerator_get_blocks"

definition FullGenerator_getitem ::
  "'a full_generator \<Rightarrow> int \<times> int \<times> (int \<times> int) \<Rightarrow> error + 'a ndarray" where
  "FullGenerator_getitem = getitem FullGenerator_get_slices"

text \<open>The body of the innermost loop of both iterators: \<open>yield self[i, j, window]\<close>.\<close>

definition yield_item :: "(error + 'b) \<Rightarrow> 'b yielded" where
  "yield_item r = (case r of Inl e \<Rightarrow> ([], Some e) | Inr a \<Rightarrow> ([a], None))"

text \<open>\<open>for window in self._windows\<close>: iterating over \<open>None\<close> is a TypeError.\<close>

definition for_windows ::
  "(int \<times> int) list option \<Rightarrow> (int \<times> int \<Rightarrow> 'b yielded) \<Rightarrow> 'b yielded" where
  "for_windows wins body =
     (case wins of None \<Rightarrow> ([], Some TypeError) | Some ws \<Rightarrow> for_yield body ws)"

definition FullGenerator_iter :: "'a full_generator \<Rightarrow> 'a ndarray yielded" where
  "FullGenerator_iter g =
     (if image_cache g = None then ([], Some unloaded_error)
      else
        for_yield (\<lambda>i.
          for_yield (\<lambda>j.
            for_windows (windows g) (\<lambda>window.
              yield_item (FullGenerator_getitem g (i, j, window))))
            (py_range (snd (shape g))))
          (py_range (fst (shape g))))"

text \<open>
  \<open>split\<close>: the loop over \<open>range(n_chunks)\<close> with its \<open>break\<close>. The sub-generators are
  built with an explicit shape, so the constructor takes no default.
\<close>

fun split_jobs :: "'a full_generator \<Rightarrow> int \<Rightarrow> int list \<Rightarrow> 'a full_generator list" where
  "split_jobs g chunk_size [] = []"
| "split_jobs g chunk_size (job # jobs) =
     (let row_offset = fst (offset g) + job * chunk_size;
          row_length = min chunk_size (fst (shape g) - row_offset)
      in if row_length \<le> 0 then []
         else FullGenerator_new (img g) (step_size g) (row_offset, snd (offset g))
                (row_length, snd (shape g))
              # split_jobs g chunk_size jobs)"

definition split :: "'a full_generator \<Rightarrow> int \<Rightarrow> error + 'a full_generator list" where
  "split g n_chunks =
     (case true_div (fst (shape g)) n_chunks of
        Inl e \<Rightarrow> Inl e
      | Inr q \<Rightarrow> Inr (split_jobs g (math_ceil q) (py_range n_chunks)))"

subsection \<open>The class RandomSampleGenerator\<close>

text \<open>
  The random numbers come from numpy. A \<open>RandomState\<close> is a value of a state type;
  \<open>RandomState(seed=s)\<close> builds one from an integer seed, and \<open>choice(n, p=p)\<close> reads one,
  returning the integer drawn (or the ValueError numpy raises for an empty range or a bad
  \<open>p\<close>) and the state afterwards. Both are parameters. The process supplies two more
  states: the one behind the module-level functions \<open>np.random.*\<close>, and the one a
  \<open>RandomState(seed=None)\<close> starts from.
\<close>

record 'st np_random =
  seeded :: "int \<Rightarrow> 'st"
  choice :: "'st \<Rightarrow> nat \<Rightarrow> rat list option \<Rightarrow> error + nat \<times> 'st"

record 'st process =
  global_state :: 'st
  entropy :: 'st

definition RandomState :: "'st np_random \<Rightarrow> 'st process \<Rightarrow> int option \<Rightarrow> 'st" where
  "RandomState np pr sd = (case sd of None \<Rightarrow> entropy pr | Some s \<Rightarrow> seeded np s)"

record 'a random_sample_generator = "'a generator" +
  masks :: "int option ndarray list"
  p_vec :: "rat list option"
  samples :: "int option"
  seed :: "int option"

definition RandomSampleGenerator_init ::
  "'a image \<Rightarrow> int option ndarray list \<Rightarrow> rat list option \<Rightarrow> int option \<Rightarrow> int option \<Rightarrow>
   'a random_sample_generator" where
  "RandomSampleGenerator_init im ms pv n sd =
     \<lparr>img = im, loaded_itype = None, image_cache = None, windows = None, padding = None,
      masks = ms, p_vec = pv, samples = n, seed = sd\<rparr>"

text \<open>Subscripting a sequence with an index numpy has drawn.\<close>

definition subscript :: "'b list \<Rightarrow> nat \<Rightarrow> error + 'b" where
  "subscript xs k = (if k < length xs then Inr (xs ! k) else Inl IndexError)"

text \<open>
  The \<open>while\<close> loop of \<open>__iter__\<close>, entered with an integer sample count. The class is drawn
  from \<open>rand_state\<close>, the position from the module-level \<open>np.random.choice\<close>, that is from
  the state of the process.
\<close>

function sample_loop ::
  "'st np_random \<Rightarrow> 'a random_sample_generator \<Rightarrow> int \<Rightarrow> int \<Rightarrow> 'st \<Rightarrow> 'st \<Rightarrow>
   ('a ndarray \<times> nat) yielded" where
  "sample_loop np g limit sample rand_state glob =
     (if sample < limit then
        (case choice np rand_state (length (masks g)) (p_vec g) of
           Inl e \<Rightarrow> ([], Some e)
         | Inr (truth, rand_state') \<Rightarrow>
         (case subscript (masks g) truth of
           Inl e \<Rightarrow> ([], Some e)
         | Inr msk \<Rightarrow>
         (let choices = argwhere (filled msk 0) in
          case choice np glob (length choices) None of
            Inl e \<Rightarrow> ([], Some e)
          | Inr (k, glob') \<Rightarrow>
          (case subscript choices k of
            Inl e \<Rightarrow> ([], Some e)
          | Inr (i, j) \<Rightarrow>
          (case for_windows (windows g) (\<lambda>window.
                  yield_item (map_sum id (\<lambda>a. (a, truth))
                    (getitem Generator_get_slices g (i, j, window)))) of
            (ys, Some e) \<Rightarrow> (ys, Some e)
          | (ys, None) \<Rightarrow>
              (case sample_loop np g limit (sample + 1) rand_state' glob' of
                 (zs, r) \<Rightarrow> (ys @ zs, r)))))))
      else ([], None))"
  by pat_completeness auto
termination
  by (relation "measure (\<lambda>(np, g, limit, sample, rand_state, glob). nat (limit - sample))") auto

declare sample_loop.simps [simp del]

text \<open>
  \<open>__iter__\<close>. \<open>sample < self.samples\<close> compares an integer with \<open>None\<close> when no sample
  count was given, which is a TypeError.
\<close>

definition RandomSampleGenerator_iter ::
  "'st np_random \<Rightarrow> 'st process \<Rightarrow> 'a random_sample_generator \<Rightarrow> ('a ndarray \<times> nat) yielded" where
  "RandomSampleGenerator_iter np pr g =
     (if image_cache g = None then ([], Some unloaded_error)
      else
        (let rand_state = RandomState np pr (seed g) in
         case samples g of
           None \<Rightarrow> ([], Some TypeError)
         | Some limit \<Rightarrow> sample_loop np g limit 0 rand_state (global_state pr)))"

subsection \<open>Vocabulary of the statements\<close>

text \<open>
  The padding as the specification words it: per axis, the ceiling of half the largest
  window extent.
\<close>

definition half_extent_padding :: "(int \<times> int) list \<Rightarrow> int \<times> int" where
  "half_extent_padding ws =
     (math_ceil (of_int (Max (set (map fst ws))) / 2),
      math_ceil (of_int (Max (set (map snd ws))) / 2))"

text \<open>
  The slice of one axis as the specification words it: the half-open range of the window's
  length that starts the floor of half the window below the middle.
\<close>

definition half_open_around :: "int \<Rightarrow> int \<Rightarrow> slice" where
  "half_open_around mid w =
     (mid - \<lfloor>(1 / 2) * (of_int w :: rat)\<rfloor>, mid - \<lfloor>(1 / 2) * (of_int w :: rat)\<rfloor> + w)"

text \<open>
  The integers of the step policy fit: \<open>index + .5\<close> is the odd integer \<open>2 * index + 1\<close>
  halved, and its product with the step size the half of their product.
\<close>

definition cell_mid_fits :: "int \<Rightarrow> int \<Rightarrow> bool" where
  "cell_mid_fits i s =
     (fits_double (2 * i + 1) \<and> fits_double s \<and> fits_double ((2 * i + 1) * s))"



text \<open>
  A block is the one a loaded generator has materialized: its \<open>_get_blocks\<close> returns it, and
  the cache is the loaded layer of what \<open>copy_block\<close> gives for it.
\<close>

definition materialized ::
  "(('a, 'z) generator_scheme \<Rightarrow> error + block) \<Rightarrow> ('a, 'z) generator_scheme \<Rightarrow> block \<Rightarrow> bool" where
  "materialized get_blocks g blk =
     (get_blocks g = Inr blk \<and>
      (case (copy_block (img g) blk, loaded_itype g) of
         (Inr layers, Some itype) \<Rightarrow> image_cache g \<noteq> None \<and> layers itype = image_cache g
       | _ \<Rightarrow> False))"

text \<open>The sub-generator that the loop of \<open>split\<close> builds for one job.\<close>

definition chunk :: "'a full_generator \<Rightarrow> int \<Rightarrow> int \<Rightarrow> 'a full_generator" where
  "chunk g cs job =
     FullGenerator_new (img g) (step_size g) (fst (offset g) + job * cs, snd (offset g))
       (min cs (fst (shape g) - (fst (offset g) + job * cs)), snd (shape g))"

subsection \<open>Example rasters and generators\<close>

text \<open>
  Modelled from the spec: an image whose \<open>copy_block\<close> returns, for each of its layers, the
  array of the block asked for, cells outside the raster included; a cell holds what the
  function \<open>px\<close> gives at its position in the raster.
\<close>

definition block_image :: "int \<times> int \<Rightarrow> string list \<Rightarrow> (int \<Rightarrow> int \<Rightarrow> 'a) \<Rightarrow> 'a image" where
  "block_image shp layers px =
     \<lparr>img_shape = shp,
      copy_block = (\<lambda>blk. Inr (\<lambda>k.
        if k \<in> set layers
        then Some \<lparr>nrows = nat (snd (fst blk) - fst (fst blk)),
                   ncols = nat (snd (snd blk) - fst (snd blk)),
                   cell = (\<lambda>i j. px (fst (fst blk) + int i) (fst (snd blk) + int j))\<rparr>
        else None))\<rparr>"

text \<open>A raster of shape (10, 10) with one layer, each cell holding its own position.\<close>

definition raster10 :: "(int \<times> int) image" where
  "raster10 = block_image (10, 10) [''rgb''] (\<lambda>r c. (r, c))"

definition pixel_generator :: "(int \<times> int) generator" where
  "pixel_generator = Generator_init raster10"

definition loaded_pixel_generator :: "(int \<times> int) generator" where
  "loaded_pixel_generator = snd (Generator_load_image pixel_generator ''rgb'' [(4, 4)])"

text \<open>The sweep of the specification's example: steps of (2, 2) and a shape of (5, 5).\<close>

definition grid_generator :: "(int \<times> int) full_generator" where
  "grid_generator = FullGenerator_new raster10 (2, 2) (0, 0) (5, 5)"

definition loaded_grid_generator :: "(int \<times> int) full_generator" where
  "loaded_grid_generator = snd (FullGenerator_load_image grid_generator ''rgb'' [(4, 4)])"


text \<open>
  A random source to run the sampler on: its state is a counter, a draw from \<open>n\<close> values
  is the counter modulo \<open>n\<close>, and an empty range is the ValueError of numpy.
\<close>

definition counter_random :: "nat np_random" where
  "counter_random =
     \<lparr>seeded = (\<lambda>s. nat \<bar>s\<bar>),
      choice = (\<lambda>st n pv. if n = 0 then Inl ValueError else Inr (st mod n, Suc st))\<rparr>"

text \<open>
  Two class masks over the raster, masked out on the first row: class 0 is the cells
  (2, 2) and (2, 3), class 1 the cells (7, 5) and (7, 6).
\<close>

definition class_masks :: "int option ndarray list" where
  "class_masks =
     [\<lparr>nrows = 10, ncols = 10,
       cell = (\<lambda>i j. if i = 0 then None
                     else if i = 2 \<and> (j = 2 \<or> j = 3) then Some 1 else Some 0)\<rparr>,
      \<lparr>nrows = 10, ncols = 10,
       cell = (\<lambda>i j. if i = 0 then None
                     else if i = 7 \<and> (j = 5 \<or> j = 6) then Some 1 else Some 0)\<rparr>]"

text \<open>A sampler over these masks, loaded with the window (4, 4).\<close>

definition sampler :: "int option \<Rightarrow> int option \<Rightarrow> (int \<times> int) random_sample_generator" where
  "sampler n sd =
     snd (load_image Generator_get_blocks
            (RandomSampleGenerator_init raster10 class_masks None n sd) ''rgb'' [(4, 4)])"

text \<open>
  What a run of the sampler shows of its draws: the first cell of each window yielded,
  which in \<open>raster10\<close> is the raster position of the window's corner, and the class.
\<close>

definition window_origins :: "('a ndarray \<times> nat) list \<Rightarrow> ('a \<times> nat) list" where
  "window_origins ys = map (\<lambda>(a, truth). (cell a 0 0, truth)) ys"

text \<open>The second sub-generator that \<open>split(2)\<close> makes of the example sweep.\<close>

definition second_chunk :: "(int \<times> int) full_generator" where
  "second_chunk = FullGenerator_new raster10 (2, 2) (3, 0) (2, 5)"

section \<open>Properties\<close>

subsection \<open>Arithmetic of the float expressions\<close>

lemma py_max_Max: "xs \<noteq> [] \<Longrightarrow> py_max xs = Inr (Max (set xs))"
proof (cases xs)
  case (Cons a list)
  then show ?thesis using Max.set_eq_fold [of a list] by simp
qed simp




lemma ceil_div_cover:
  assumes "0 < (s::int)"
  shows "n \<le> \<lceil>(of_int n :: rat) / of_int s\<rceil> * s"
    and "(\<lceil>(of_int n :: rat) / of_int s\<rceil> - 1) * s < n"
proof -
  define q where "q = \<lceil>(of_int n :: rat) / of_int s\<rceil>"
  have pos: "(0::rat) < of_int s" using assms by simp
  have up: "(of_int n :: rat) / of_int s \<le> of_int q"
    and lo: "(of_int q :: rat) - 1 < of_int n / of_int s"
    unfolding q_def using ceiling_correct [of "(of_int n :: rat) / of_int s"] by blast+
  from up pos have "(of_int n :: rat) \<le> of_int q * of_int s"
    using pos_divide_le_eq [of "of_int s" "of_int n" "of_int q"] by blast
  then have "(of_int n :: rat) \<le> of_int (q * s)" by simp
  then have "n \<le> q * s" by (simp only: of_int_le_iff)
  then show "n \<le> \<lceil>(of_int n :: rat) / of_int s\<rceil> * s" by (simp only: q_def)
  from lo pos have "((of_int q :: rat) - 1) * of_int s < of_int n"
    using pos_less_divide_eq [of "of_int s" "of_int q - 1" "of_int n"] by blast
  then have "(of_int ((q - 1) * s) :: rat) < of_int n" by simp
  then have "(q - 1) * s < n" by (simp only: of_int_less_iff)
  then show "(\<lceil>(of_int n :: rat) / of_int s\<rceil> - 1) * s < n" by (simp only: q_def)
qed

subsection \<open>The floats of the source\<close>

text \<open>
  Rounding to a double leaves a rational \<open>m * 2^k\<close> with \<open>|m| < 2^53\<close> as it is, and moves
  any other by at most the fraction \<open>2^-53\<close> of its magnitude.
\<close>

lemma round_half_even_of_int: "round_half_even (of_int n) = n"
  by (simp add: round_half_even_def)

lemma round_half_even_error: "\<bar>of_int (round_half_even y) - y\<bar> \<le> 1 / 2"
proof -
  have "of_int \<lfloor>y\<rfloor> \<le> y" "y < of_int \<lfloor>y\<rfloor> + 1" by linarith+
  then show ?thesis
    by (auto simp add: round_half_even_def Let_def abs_le_iff)
qed

lemma exponent_bounds:
  assumes "x \<noteq> 0"
  shows "2 powi exponent x \<le> \<bar>x\<bar>" and "\<bar>x\<bar> < 2 powi (exponent x + 1)"
proof -
  obtain a b where q: "quotient_of \<bar>x\<bar> = (a, b)" by (cases "quotient_of \<bar>x\<bar>")
  then have b: "0 < b" and x: "\<bar>x\<bar> = of_int a / of_int b"
    by (rule quotient_of_denom_pos, rule quotient_of_div)
  have a: "0 < a"
  proof -
    have "0 < \<bar>x\<bar>" using assms by simp
    then have "0 < (of_int a :: rat) / of_int b" by (simp only: x)
    then show ?thesis using b by (simp add: zero_less_divide_iff)
  qed
  define la where "la = bitlen a"
  define lb where "lb = bitlen b"
  have la: "1 \<le> la" and lb: "1 \<le> lb"
    using a b bitlen_eq_zero_iff [of a] bitlen_eq_zero_iff [of b] bitlen_nonneg [of a] bitlen_nonneg [of b]
    by (auto simp: la_def lb_def)
  have a_lo: "(2 :: rat) powi (la - 1) \<le> of_int a" and a_hi: "(of_int a :: rat) < 2 powi la"
  proof -
    have "2 ^ nat (la - 1) \<le> a" "a < 2 ^ nat la" using bitlen_bounds [OF a] by (simp_all add: la_def)
    then have "(of_int (2 ^ nat (la - 1)) :: rat) \<le> of_int a" "(of_int a :: rat) < of_int (2 ^ nat la)"
      by (simp_all only: of_int_le_iff of_int_less_iff)
    then show "(2 :: rat) powi (la - 1) \<le> of_int a" "(of_int a :: rat) < 2 powi la"
      using la by (simp_all add: power_int_nonneg_exp)
  qed
  have b_lo: "(2 :: rat) powi (lb - 1) \<le> of_int b" and b_hi: "(of_int b :: rat) < 2 powi lb"
  proof -
    have "2 ^ nat (lb - 1) \<le> b" "b < 2 ^ nat lb" using bitlen_bounds [OF b] by (simp_all add: lb_def)
    then have "(of_int (2 ^ nat (lb - 1)) :: rat) \<le> of_int b" "(of_int b :: rat) < of_int (2 ^ nat lb)"
      by (simp_all only: of_int_le_iff of_int_less_iff)
    then show "(2 :: rat) powi (lb - 1) \<le> of_int b" "(of_int b :: rat) < 2 powi lb"
      using lb by (simp_all add: power_int_nonneg_exp)
  qed
  have bpos: "(0 :: rat) < of_int b" using b by simp
  have lower: "(2 :: rat) powi (la - lb - 1) \<le> \<bar>x\<bar>"
  proof -
    have "(2 :: rat) powi (la - lb - 1) * of_int b \<le> 2 powi (la - lb - 1) * 2 powi lb"
      using b_hi by (intro mult_left_mono) simp_all
    also have "\<dots> = 2 powi (la - 1)" by (simp flip: power_int_add)
    also have "\<dots> \<le> of_int a" by (rule a_lo)
    finally show ?thesis using bpos by (simp add: x pos_le_divide_eq)
  qed
  have upper: "\<bar>x\<bar> < (2 :: rat) powi (la - lb + 1)"
  proof -
    have "(of_int a :: rat) < 2 powi la" by (rule a_hi)
    also have "\<dots> = 2 powi (la - lb + 1) * 2 powi (lb - 1)" by (simp flip: power_int_add)
    also have "\<dots> \<le> 2 powi (la - lb + 1) * of_int b"
      using b_lo by (intro mult_left_mono) simp_all
    finally show ?thesis using bpos by (simp add: x pos_divide_less_eq)
  qed
  have e: "exponent x = (if 2 powi (la - lb) \<le> \<bar>x\<bar> then la - lb else la - lb - 1)"
    by (simp add: exponent_def q la_def lb_def Let_def)
  show "2 powi exponent x \<le> \<bar>x\<bar>" using lower by (simp add: e)
  show "\<bar>x\<bar> < 2 powi (exponent x + 1)" using upper by (simp add: e not_le)
qed

lemma powi_less_D: "(2 :: rat) powi a < 2 powi b \<Longrightarrow> a < b"
proof (rule ccontr)
  assume lt: "(2 :: rat) powi a < 2 powi b" and "\<not> a < b"
  then have "b \<le> a" by simp
  then have "(2 :: rat) powi b \<le> 2 powi a" by (intro power_int_increasing) simp_all
  with lt show False by simp
qed

lemma double_exact:
  assumes x: "x = of_int m * 2 powi k" and m: "\<bar>m\<bar> < 2 ^ 53" and k: "- 1074 \<le> k"
  shows "double x = x"
proof (cases "x = 0")
  case True
  then show ?thesis by (simp add: double_def)
next
  case False
  define E where "E = max (exponent x) (- 1022) - 52"
  have "(2 :: rat) powi exponent x \<le> \<bar>x\<bar>" using False by (rule exponent_bounds)
  also have "\<bar>x\<bar> = of_int \<bar>m\<bar> * 2 powi k" by (simp add: x abs_mult)
  also have "\<dots> < of_int (2 ^ 53) * 2 powi k"
    using m by (intro mult_strict_right_mono) (simp_all only: of_int_less_iff zero_less_power_int zero_less_numeral)
  also have "\<dots> = 2 powi (53 + k)" by (simp add: power_int_add)
  finally have "exponent x < 53 + k" by (rule powi_less_D)
  with k have E: "E \<le> k" by (simp add: E_def)
  have "x / 2 powi E = of_int m * (2 powi k / 2 powi E)" by (simp add: x)
  also have "2 powi k / (2 :: rat) powi E = 2 powi (k - E)" by (simp add: power_int_diff)
  also have "\<dots> = of_int (2 ^ nat (k - E))" using E by (simp add: power_int_nonneg_exp)
  finally have q: "x / 2 powi E = of_int (m * 2 ^ nat (k - E))" by simp
  have "double x = of_int (round_half_even (x / 2 powi E)) * 2 powi E"
    using False by (simp add: double_def E_def Let_def)
  also have "\<dots> = x / 2 powi E * 2 powi E"
    by (simp only: q round_half_even_of_int)
  also have "\<dots> = x" by simp
  finally show ?thesis .
qed

lemma double_error:
  assumes "2 powi (- 1022) \<le> \<bar>x\<bar>"
  shows "\<bar>double x - x\<bar> \<le> \<bar>x\<bar> / 2 ^ 53"
proof -
  have pos: "(0 :: rat) < 2 powi (- 1022)" by (intro zero_less_power_int) simp
  with assms have nz: "x \<noteq> 0" by auto
  define e where "e = exponent x"
  have lo: "2 powi e \<le> \<bar>x\<bar>" and hi: "\<bar>x\<bar> < 2 powi (e + 1)"
    using exponent_bounds [OF nz] by (simp_all add: e_def)
  from assms hi have "(2 :: rat) powi (- 1022) < 2 powi (e + 1)" by simp
  then have "- 1022 < e + 1" by (rule powi_less_D)
  then have mx: "max e (- 1022) = e" by simp
  define ulp :: rat where "ulp = 2 powi (e - 52)"
  have up: "0 < ulp" unfolding ulp_def by (intro zero_less_power_int) simp
  have d: "double x = of_int (round_half_even (x / ulp)) * ulp"
    using nz mx by (simp add: double_def Let_def e_def [symmetric] ulp_def)
  have "double x - x = (of_int (round_half_even (x / ulp)) - x / ulp) * ulp"
    using up by (simp add: d algebra_simps)
  then have "\<bar>double x - x\<bar> = \<bar>of_int (round_half_even (x / ulp)) - x / ulp\<bar> * ulp"
    using up by (simp add: abs_mult)
  also have "\<dots> \<le> (1 / 2) * ulp"
    using round_half_even_error [of "x / ulp"] up by (intro mult_right_mono) simp_all
  also have "\<dots> = 2 powi e / 2 ^ 53"
  proof -
    have "(2 :: rat) powi (e - 52) = 2 powi e / 2 powi 52" by (simp add: power_int_diff)
    then show ?thesis by (simp add: ulp_def)
  qed
  also have "\<dots> \<le> \<bar>x\<bar> / 2 ^ 53" using lo by (simp add: divide_right_mono)
  finally show ?thesis .
qed

text \<open>
  For integers that fit, the float expressions of the source return the rationals that
  the classes compute: the half window and the middle of a cell exactly, and the quotient
  with the same ceiling.
\<close>

lemma double_of_int: "fits_double k \<Longrightarrow> double (of_int k) = of_int k"
  using double_exact [of "of_int k" k 0] by (simp add: fits_double_def)

lemma double_half_of_int: "fits_double k \<Longrightarrow> double (of_int k / 2) = of_int k / 2"
  using double_exact [of "of_int k / 2" k "- 1"] by (simp add: fits_double_def)

lemma fits_double_not_overflow: "fits_double k \<Longrightarrow> \<not> 2 ^ 1024 \<le> \<bar>(of_int k :: rat) / d\<bar>" if "1 \<le> d"
proof -
  assume "fits_double k"
  then have "\<bar>k\<bar> < 2 ^ 53" by (simp add: fits_double_def)
  then have "(of_int \<bar>k\<bar> :: rat) < of_int (2 ^ 53)" by (simp only: of_int_less_iff)
  then have a: "\<bar>of_int k :: rat\<bar> < 2 ^ 53" by simp
  have "\<bar>(of_int k :: rat) / d\<bar> = \<bar>of_int k\<bar> / d" using that by simp
  also have "\<dots> \<le> \<bar>of_int k\<bar>"
  proof -
    have "1 / d \<le> 1" using that by simp
    then have "\<bar>of_int k :: rat\<bar> * (1 / d) \<le> \<bar>of_int k\<bar>" by (intro mult_left_le) simp_all
    then show ?thesis by simp
  qed
  also have "\<dots> < 2 ^ 53" by (rule a)
  also have "(2 :: rat) ^ 53 \<le> 2 ^ 1024" by (intro power_increasing) simp_all
  finally show ?thesis by simp
qed

lemma py_float_fits: "fits_double k \<Longrightarrow> py_float k = Inr (of_int k)"
  using fits_double_not_overflow [of 1 k] by (simp add: py_float_def double_of_int)

lemma float_half_fits:
  assumes "fits_double w"
  shows "float_half w = Inr ((1 / 2) * of_int w)"
  using assms by (simp add: float_half_def py_float_fits double_half_of_int)

lemma fits_double_index:
  assumes "fits_double (2 * i + 1)"
  shows "fits_double i"
  using assms by (simp add: fits_double_def)

lemma float_cell_mid_fits:
  assumes "cell_mid_fits i s"
  shows "float_cell_mid i s = Inr ((of_int i + 1 / 2) * of_int s)"
proof -
  from assms have a: "fits_double (2 * i + 1)" and b: "fits_double s"
    and c: "fits_double ((2 * i + 1) * s)" by (simp_all add: cell_mid_fits_def)
  have s1: "(of_int i :: rat) + 1 / 2 = of_int (2 * i + 1) / 2" by simp
  have s2: "(of_int (2 * i + 1) :: rat) / 2 * of_int s = of_int ((2 * i + 1) * s) / 2" by simp
  have sum: "double (of_int (2 * i + 1) / 2) = of_int (2 * i + 1) / 2"
    using a by (rule double_half_of_int)
  have prod: "double (of_int ((2 * i + 1) * s) / 2) = of_int ((2 * i + 1) * s) / 2"
    using c by (rule double_half_of_int)
  have fin: "\<not> 2 ^ 1024 \<le> \<bar>(of_int ((2 * i + 1) * s) :: rat) / 2\<bar>"
    using fits_double_not_overflow [of 2, OF _ c] by simp
  have "float_cell_mid i s = Inr (of_int ((2 * i + 1) * s) / 2)"
    unfolding float_cell_mid_def py_float_fits [OF fits_double_index [OF a]]
      py_float_fits [OF b] sum.case s1 sum s2 prod Let_def
    using fin by simp
  then show ?thesis by (simp only: s1 s2)
qed

lemma quotient_away_from_int:
  fixes a b m :: int
  assumes "b \<noteq> 0" and "(of_int a :: rat) / of_int b \<noteq> of_int m"
  shows "1 / \<bar>of_int b\<bar> \<le> \<bar>(of_int a :: rat) / of_int b - of_int m\<bar>"
proof -
  have bp: "(0 :: rat) < \<bar>of_int b\<bar>" using assms(1) by simp
  have eq: "(of_int a :: rat) / of_int b - of_int m = of_int (a - m * b) / of_int b"
    using assms(1) by (simp add: field_simps)
  have "a - m * b \<noteq> 0"
  proof
    assume "a - m * b = 0"
    then have "a = m * b" by simp
    then have "(of_int a :: rat) / of_int b = of_int m" using assms(1) by simp
    with assms(2) show False by simp
  qed
  then have "1 \<le> \<bar>a - m * b\<bar>" by simp
  then have "(of_int 1 :: rat) \<le> of_int \<bar>a - m * b\<bar>" by (simp only: of_int_le_iff)
  then have "(1 :: rat) \<le> \<bar>of_int (a - m * b)\<bar>" by simp
  then have "1 / \<bar>of_int b :: rat\<bar> \<le> \<bar>of_int (a - m * b)\<bar> / \<bar>of_int b\<bar>"
    using bp by (simp add: divide_right_mono)
  then show ?thesis by (simp add: eq)
qed

lemma ceiling_double_quotient:
  assumes a: "fits_double a" and b: "fits_double b" and nz: "b \<noteq> 0"
  shows "\<lceil>double (of_int a / of_int b)\<rceil> = \<lceil>(of_int a :: rat) / of_int b\<rceil>"
    and "\<not> 2 ^ 1024 \<le> \<bar>double (of_int a / of_int b)\<bar>"
proof -
  define x :: rat where "x = of_int a / of_int b"
  define n where "n = \<lceil>x\<rceil>"
  have bp: "(0 :: rat) < \<bar>of_int b\<bar>" and b1: "(1 :: rat) \<le> \<bar>of_int b\<bar>"
  proof -
    have "1 \<le> \<bar>b\<bar>" using nz by simp
    then have "(of_int 1 :: rat) \<le> of_int \<bar>b\<bar>" by (simp only: of_int_le_iff)
    then show "(1 :: rat) \<le> \<bar>of_int b\<bar>" by simp
    then show "(0 :: rat) < \<bar>of_int b\<bar>" by simp
  qed
  have a53: "\<bar>of_int a :: rat\<bar> < 2 ^ 53" and b53: "\<bar>of_int b :: rat\<bar> < 2 ^ 53"
  proof -
    have "\<bar>a\<bar> < 2 ^ 53" "\<bar>b\<bar> < 2 ^ 53" using a b by (simp_all add: fits_double_def)
    then have "(of_int \<bar>a\<bar> :: rat) < of_int (2 ^ 53)" "(of_int \<bar>b\<bar> :: rat) < of_int (2 ^ 53)"
      by (simp_all only: of_int_less_iff)
    then show "\<bar>of_int a :: rat\<bar> < 2 ^ 53" "\<bar>of_int b :: rat\<bar> < 2 ^ 53" by simp_all
  qed
  have absx: "\<bar>x\<bar> = \<bar>of_int a\<bar> / \<bar>of_int b\<bar>" by (simp add: x_def)
  have xle: "\<bar>x\<bar> \<le> \<bar>of_int a\<bar>"
  proof -
    have "1 / \<bar>of_int b :: rat\<bar> \<le> 1" using b1 by simp
    then have "\<bar>of_int a :: rat\<bar> * (1 / \<bar>of_int b\<bar>) \<le> \<bar>of_int a\<bar>" by (intro mult_left_le) simp_all
    then show ?thesis by (simp add: absx)
  qed
  have main: "\<lceil>double x\<rceil> = n \<and> \<bar>double x\<bar> < 2 ^ 54"
  proof (cases "x = of_int n")
    case True
    have "\<bar>of_int n :: rat\<bar> < 2 ^ 53" using xle a53 True by simp
    then have "(of_int \<bar>n\<bar> :: rat) < of_int (2 ^ 53)" by simp
    then have "\<bar>n\<bar> < 2 ^ 53" by (simp only: of_int_less_iff)
    then have "double (of_int n) = of_int n" by (intro double_of_int) (simp add: fits_double_def)
    then have d: "double x = of_int n" using True by simp
    have "\<bar>of_int n :: rat\<bar> < 2 ^ 54"
      using \<open>\<bar>of_int n :: rat\<bar> < 2 ^ 53\<close> by (rule less_trans) simp
    then show ?thesis by (simp add: d)
  next
    case False
    then have a0: "a \<noteq> 0" by (auto simp add: x_def n_def)
    have xlow: "2 powi (- 1022) \<le> \<bar>x\<bar>"
    proof -
      have "(2 :: rat) powi (- 1022) \<le> 2 powi (- 53)" by (intro power_int_increasing) simp_all
      also have "\<dots> = 1 / 2 ^ 53"
      proof -
        have "(2 :: rat) powi (- 53) = inverse (2 powi 53)" by (rule power_int_minus)
        also have "(2 :: rat) powi 53 = 2 ^ 53" by (rule power_int_numeral)
        finally show ?thesis by (simp only: inverse_eq_divide)
      qed
      also have "\<dots> \<le> 1 / \<bar>of_int b\<bar>" using b53 bp by (intro divide_left_mono) simp_all
      also have "\<dots> \<le> \<bar>of_int a\<bar> / \<bar>of_int b\<bar>"
      proof -
        have "1 \<le> \<bar>a\<bar>" using a0 by simp
        then have "(of_int 1 :: rat) \<le> of_int \<bar>a\<bar>" by (simp only: of_int_le_iff)
        then show ?thesis using bp by (simp add: divide_right_mono)
      qed
      finally show ?thesis by (simp only: absx)
    qed
    have err: "\<bar>double x - x\<bar> < 1 / \<bar>of_int b\<bar>"
    proof -
      have "\<bar>double x - x\<bar> \<le> \<bar>x\<bar> / 2 ^ 53" using xlow by (rule double_error)
      also have "\<dots> = (\<bar>of_int a\<bar> / 2 ^ 53) / \<bar>of_int b\<bar>" by (simp add: absx)
      also have "\<dots> < 1 / \<bar>of_int b\<bar>"
        using a53 bp by (intro divide_strict_right_mono) simp_all
      finally show ?thesis .
    qed
    have up: "x \<le> of_int n" and lo: "of_int n - 1 < x"
      unfolding n_def by linarith+
    have d_up: "1 / \<bar>of_int b\<bar> \<le> of_int n - x"
      using quotient_away_from_int [OF nz, of a n] False up by (simp add: x_def)
    have "x \<noteq> of_int (n - 1)" using lo by simp
    then have d_lo: "1 / \<bar>of_int b\<bar> \<le> x - of_int (n - 1)"
      using quotient_away_from_int [OF nz, of a "n - 1"] lo by (simp add: x_def)
    from err d_up d_lo have "of_int n - 1 < double x" "double x \<le> of_int n"
      by (simp_all add: abs_less_iff)
    then have c: "\<lceil>double x\<rceil> = n" by (intro ceiling_unique)
    have "\<bar>double x\<bar> \<le> \<bar>double x - x\<bar> + \<bar>x\<bar>" by simp
    also have "\<dots> < 1 / \<bar>of_int b\<bar> + \<bar>x\<bar>" using err by simp
    also have "\<dots> \<le> 1 + \<bar>of_int a\<bar>" using xle b1 by (intro add_mono) simp_all
    also have "\<dots> < 1 + 2 ^ 53" using a53 by simp
    also have "\<dots> \<le> (2 :: rat) ^ 54" by simp
    finally show ?thesis using c by simp
  qed
  then show "\<lceil>double (of_int a / of_int b)\<rceil> = \<lceil>(of_int a :: rat) / of_int b\<rceil>"
    by (simp add: x_def n_def)
  have big: "(2 :: rat) ^ 54 \<le> 2 ^ 1024" by (intro power_increasing) simp_all
  from main have "\<bar>double x\<bar> < 2 ^ 54" by (rule conjunct2)
  then have "\<bar>double x\<bar> < 2 ^ 1024" using big by (rule less_le_trans)
  then show "\<not> 2 ^ 1024 \<le> \<bar>double (of_int a / of_int b)\<bar>"
    unfolding x_def by (simp only: not_le)
qed

lemma float_true_div_fits:
  assumes "fits_double a" "fits_double b" "b \<noteq> 0"
  shows "\<exists>q. float_true_div a b = Inr q \<and> math_ceil q = \<lceil>(of_int a :: rat) / of_int b\<rceil>"
  using ceiling_double_quotient [OF assms] assms(3)
  by (simp add: float_true_div_def math_ceil_def Let_def)

text \<open>
  Beyond, they do not: the half of the window \<open>2^53 + 3\<close> floors to \<open>2^52 + 2\<close> where the
  exact half floors to \<open>2^52 + 1\<close>, the middle of the cell \<open>2^52 + 1\<close> at step 1 is
  \<open>2^52 + 2\<close>, the quotient of \<open>2^53 + 1\<close> by 1 is \<open>2^53\<close>, and \<open>2^1024\<close> is no float.
\<close>

lemma exponent_unique:
  assumes "2 powi e \<le> \<bar>x\<bar>" "\<bar>x\<bar> < 2 powi (e + 1)"
  shows "exponent x = e"
proof -
  have nz: "x \<noteq> 0"
  proof
    assume "x = 0"
    with assms(1) have "(2 :: rat) powi e \<le> 0" by simp
    moreover have "(0 :: rat) < 2 powi e" by (intro zero_less_power_int) simp
    ultimately show False by linarith
  qed
  have "(2 :: rat) powi exponent x < 2 powi (e + 1)"
    using exponent_bounds(1) [OF nz] assms(2) by (rule le_less_trans)
  then have a: "exponent x < e + 1" by (rule powi_less_D)
  have "(2 :: rat) powi e < 2 powi (exponent x + 1)"
    using assms(1) exponent_bounds(2) [OF nz] by (rule le_less_trans)
  then have "e < exponent x + 1" by (rule powi_less_D)
  with a show ?thesis by simp
qed

lemma double_at:
  assumes "2 powi e \<le> \<bar>x\<bar>" "\<bar>x\<bar> < 2 powi (e + 1)" "- 1022 \<le> e"
  shows "double x = of_int (round_half_even (x / 2 powi (e - 52))) * 2 powi (e - 52)"
proof -
  have nz: "x \<noteq> 0"
  proof
    assume "x = 0"
    with assms(1) have "(2 :: rat) powi e \<le> 0" by simp
    moreover have "(0 :: rat) < 2 powi e" by (intro zero_less_power_int) simp
    ultimately show False by linarith
  qed
  show ?thesis
    using nz assms(3) by (simp add: double_def exponent_unique [OF assms(1,2)] Let_def max_def)
qed

lemma round_half_even_tie: "round_half_even (of_int n + 1 / 2) = (if even n then n else n + 1)"
proof -
  have "\<lfloor>of_int n + (1 / 2 :: rat)\<rfloor> = n" by (rule floor_unique) simp_all
  then show ?thesis by (simp add: round_half_even_def Let_def)
qed

lemma double_beyond:
  "double (2 ^ 53 + 3) = 2 ^ 53 + 4"
  "double (2 ^ 53 + 1) = 2 ^ 53"
  "double (2 ^ 52 + 1 + 1 / 2) = 2 ^ 52 + 2"
proof -
  have p: "(2 :: rat) powi 53 = 2 ^ 53" "(2 :: rat) powi (53 + 1) = 2 ^ 54" "(2 :: rat) powi (53 - 52) = 2"
    "(2 :: rat) powi 52 = 2 ^ 52" "(2 :: rat) powi (52 + 1) = 2 ^ 53" "(2 :: rat) powi (52 - 52) = 1"
    by simp_all
  have e: "((2 :: rat) ^ 53 + 3) / 2 = of_int (2 ^ 52 + 1) + 1 / 2"
    "((2 :: rat) ^ 53 + 1) / 2 = of_int (2 ^ 52) + 1 / 2"
    "(2 :: rat) ^ 52 + 1 + 1 / 2 = of_int (2 ^ 52 + 1) + 1 / 2"
    by simp_all
  have r: "round_half_even ((2 ^ 53 + 3) / 2) = 2 ^ 52 + 2" "round_half_even ((2 ^ 53 + 1) / 2) = 2 ^ 52"
    "round_half_even (2 ^ 52 + 1 + 1 / 2) = 2 ^ 52 + 2"
    unfolding e round_half_even_tie by simp_all
  have h1: "(2 :: rat) powi 53 \<le> \<bar>2 ^ 53 + 3\<bar>" "\<bar>(2 :: rat) ^ 53 + 3\<bar> < 2 powi (53 + 1)"
    and h2: "(2 :: rat) powi 53 \<le> \<bar>2 ^ 53 + 1\<bar>" "\<bar>(2 :: rat) ^ 53 + 1\<bar> < 2 powi (53 + 1)"
    and h3: "(2 :: rat) powi 52 \<le> \<bar>2 ^ 52 + 1 + 1 / 2\<bar>"
      "\<bar>(2 :: rat) ^ 52 + 1 + 1 / 2\<bar> < 2 powi (52 + 1)"
    by simp_all
  have "double (2 ^ 53 + 3) =
      of_int (round_half_even ((2 ^ 53 + 3) / 2 powi (53 - 52))) * 2 powi (53 - 52)"
    by (rule double_at [OF h1]) simp
  also have "\<dots> = of_int (2 ^ 52 + 2) * 2" by (simp only: p r)
  also have "\<dots> = 2 ^ 53 + 4" by simp
  finally show "double (2 ^ 53 + 3) = 2 ^ 53 + 4" .
  have "double (2 ^ 53 + 1) =
      of_int (round_half_even ((2 ^ 53 + 1) / 2 powi (53 - 52))) * 2 powi (53 - 52)"
    by (rule double_at [OF h2]) simp
  also have "\<dots> = of_int (2 ^ 52) * 2" by (simp only: p r)
  also have "\<dots> = 2 ^ 53" by simp
  finally show "double (2 ^ 53 + 1) = 2 ^ 53" .
  have "double (2 ^ 52 + 1 + 1 / 2) =
      of_int (round_half_even ((2 ^ 52 + 1 + 1 / 2) / 2 powi (52 - 52))) * 2 powi (52 - 52)"
    by (rule double_at [OF h3]) simp
  also have "\<dots> = of_int (2 ^ 52 + 2) * 1" by (simp only: p r div_by_1)
  also have "\<dots> = 2 ^ 52 + 2" by simp
  finally show "double (2 ^ 52 + 1 + 1 / 2) = 2 ^ 52 + 2" .
qed

lemma small_is_finite: "\<bar>x\<bar> < 2 ^ 54 \<Longrightarrow> \<not> 2 ^ 1024 \<le> \<bar>x :: rat\<bar>"
proof -
  assume "\<bar>x\<bar> < 2 ^ 54"
  moreover have "(2 :: rat) ^ 54 \<le> 2 ^ 1024" by (rule power_increasing) simp_all
  ultimately have "\<bar>x\<bar> < 2 ^ 1024" by (rule less_le_trans)
  then show ?thesis by (simp only: not_le)
qed

lemma float_half_beyond:
  "float_half (2 ^ 53 + 3) = Inr (2 ^ 52 + 2)"
proof -
  have c: "(of_int (2 ^ 53 + 3) :: rat) = 2 ^ 53 + 3" by simp
  have fin: "\<not> 2 ^ 1024 \<le> \<bar>(2 :: rat) ^ 53 + 4\<bar>" by (rule small_is_finite) simp
  have pf: "py_float (2 ^ 53 + 3) = Inr (2 ^ 53 + 4)"
    unfolding py_float_def c double_beyond Let_def using fin by (simp only: if_False)
  have h: "(1 / 2) * ((2 :: rat) ^ 53 + 4) = of_int (2 ^ 52 + 2)" by simp
  have "fits_double (2 ^ 52 + 2)" by (simp add: fits_double_def)
  then have d: "double (of_int (2 ^ 52 + 2)) = of_int (2 ^ 52 + 2)" by (rule double_of_int)
  show ?thesis
    unfolding float_half_def pf sum.case h d by simp
qed

lemma float_cell_mid_beyond:
  "float_cell_mid (2 ^ 52 + 1) 1 = Inr (2 ^ 52 + 2)"
proof -
  have f: "fits_double (2 ^ 52 + 1)" "fits_double 1" "fits_double (2 ^ 52 + 2)"
    by (simp_all add: fits_double_def)
  have c: "(of_int (2 ^ 52 + 1) :: rat) + 1 / 2 = 2 ^ 52 + 1 + 1 / 2" by simp
  have m: "((2 :: rat) ^ 52 + 2) * of_int 1 = of_int (2 ^ 52 + 2)" by simp
  have fin: "\<not> 2 ^ 1024 \<le> \<bar>(of_int (2 ^ 52 + 2) :: rat)\<bar>" by (rule small_is_finite) simp
  show ?thesis
    unfolding float_cell_mid_def py_float_fits [OF f(1)] py_float_fits [OF f(2)] sum.case c
      double_beyond m double_of_int [OF f(3)] Let_def
    using fin by simp
qed

lemma float_true_div_beyond:
  "float_true_div (2 ^ 53 + 1) 1 = Inr (2 ^ 53)"
proof -
  have c: "(of_int (2 ^ 53 + 1) :: rat) / of_int 1 = 2 ^ 53 + 1" by simp
  have fin: "\<not> 2 ^ 1024 \<le> \<bar>(2 :: rat) ^ 53\<bar>" by (rule small_is_finite) simp
  show ?thesis
    unfolding float_true_div_def c double_beyond Let_def using fin by simp
qed

lemma py_float_overflow: "py_float (2 ^ 1024) = Inl OverflowError"
proof -
  have "double (of_int 1 * 2 powi 1024) = of_int 1 * 2 powi 1024"
    by (rule double_exact [of _ 1 1024]) simp_all
  then have "double (of_int (2 ^ 1024)) = 2 ^ 1024" by simp
  then show ?thesis by (simp add: py_float_def Let_def)
qed

subsection \<open>The examples evaluated\<close>

lemmas fixture_defs = pixel_generator_def loaded_pixel_generator_def grid_generator_def
  loaded_grid_generator_def Generator_load_image_def FullGenerator_load_image_def load_image_def
  Generator_init_def FullGenerator_new_def raster10_def block_image_def math_ceil_def
  Generator_get_blocks_def FullGenerator_get_blocks_def Let_def

lemma pixel_generator_loads:
  "Generator_load_image pixel_generator ''rgb'' [(4, 4)] = (Inr (), loaded_pixel_generator)"
  by (simp add: fixture_defs)

lemma grid_generator_loads:
  "FullGenerator_load_image grid_generator ''rgb'' [(4, 4)] = (Inr (), loaded_grid_generator)"
  by (simp add: fixture_defs)

lemma loaded_pixel_generator_eq:
  "loaded_pixel_generator =
     \<lparr>img = raster10, loaded_itype = Some ''rgb'',
      image_cache = Some \<lparr>nrows = 18, ncols = 18, cell = (\<lambda>i j. (int i - 4, int j - 4))\<rparr>,
      windows = Some [(4, 4)], padding = Some (4, 4)\<rparr>"
  by (simp add: fixture_defs)

lemma loaded_grid_generator_eq:
  "loaded_grid_generator =
     \<lparr>img = raster10, loaded_itype = Some ''rgb'',
      image_cache = Some \<lparr>nrows = 18, ncols = 18, cell = (\<lambda>i j. (int i - 4, int j - 4))\<rparr>,
      windows = Some [(4, 4)], padding = Some (4, 4),
      step_size = (2, 2), offset = (0, 0), shape = (5, 5)\<rparr>"
  by (simp add: fixture_defs)

subsection \<open>Loading\<close>

lemma load_image_padding:
  assumes "ws \<noteq> []"
  shows "padding (snd (load_image gb g itype ws)) =
    Some (Max (set (map fst ws)), Max (set (map snd ws)))"
  using assms
  by (simp add: load_image_def py_max_Max math_ceil_def Let_def o_def
      split: sum.splits option.splits)

text \<open>What a load that returns has done.\<close>

lemma load_image_ok:
  assumes "load_image gb g itype ws = (Inr (), g')"
  obtains blk layers arr where
    "ws \<noteq> []"
    "g' = g\<lparr>windows := Some (rev (sort ws)),
            padding := Some (Max (set (map fst ws)), Max (set (map snd ws))),
            image_cache := Some arr, loaded_itype := Some itype\<rparr>"
    "gb (g\<lparr>windows := Some (rev (sort ws)),
            padding := Some (Max (set (map fst ws)), Max (set (map snd ws)))\<rparr>) = Inr blk"
    "copy_block (img g) blk = Inr layers" "layers itype = Some arr"
proof (cases "ws = []")
  case True
  with assms show ?thesis by (simp add: load_image_def)
next
  case False
  with assms that show ?thesis
    by (auto simp add: load_image_def py_max_Max math_ceil_def Let_def o_def
        split: sum.splits option.splits)
qed

text \<open>
  C1, as the code has it. For every non-empty list of window shapes, \<open>load_image\<close> stores as
  padding, on each axis, the largest window extent on that axis (the ceiling of an integer
  extent is the extent): the extent is not halved. This holds for every generator class and
  whether or not the rest of the load succeeds.
\<close>

theorem padding_is_max_extent:
  assumes "ws \<noteq> []"
  shows "padding (snd (load_image get_blocks g itype ws)) =
    Some (Max (fst ` set ws), Max (snd ` set ws))"
  using load_image_padding [OF assms] by simp

theorem padding_is_max_extent_witness:
  "[(4, 4), (2, 6)] \<noteq> ([] :: (int \<times> int) list) \<and>
   padding (snd (load_image Generator_get_blocks pixel_generator ''rgb'' [(4, 4), (2, 6)])) =
     Some (4, 6)"
  using padding_is_max_extent [of "[(4, 4), (2, 6)]" Generator_get_blocks pixel_generator "''rgb''"]
  by simp

text \<open>
  C1, as the specification states it, fails: with the single window (4, 4) the padding
  stored is (4, 4), and the ceiling of half the largest extent is (2, 2).
\<close>

theorem padding_not_half_extent:
  "padding (snd (Generator_load_image pixel_generator ''rgb'' [(4, 4)])) \<noteq>
     Some (half_extent_padding [(4, 4)])"
  by (simp add: fixture_defs half_extent_padding_def)

subsection \<open>The default shape of a sweep\<close>

text \<open>
  C10. A \<open>FullGenerator\<close> built with the shape omitted or falsy, on a step size that is
  not zero, with image extents and step sizes that fit a double, takes as shape per axis
  the ceiling of the image extent divided by the step size. For a positive step that is
  the least number of steps that covers the axis, so the sweep tiles the whole raster.
\<close>

theorem default_shape_tiles_raster:
  assumes "falsy shp"
    and "fst step \<noteq> 0" "snd step \<noteq> 0"
    and "fits_double (fst step)" "fits_double (snd step)"
    and "fits_double (fst (img_shape im))" "fits_double (snd (img_shape im))"
  shows "\<exists>g. FullGenerator_init im step off shp = Inr g \<and>
     shape g = (\<lceil>(of_int (fst (img_shape im)) :: rat) / of_int (fst step)\<rceil>,
                \<lceil>(of_int (snd (img_shape im)) :: rat) / of_int (snd step)\<rceil>) \<and>
     (0 < fst step \<longrightarrow> (fst (shape g) - 1) * fst step < fst (img_shape im) \<and>
                           fst (img_shape im) \<le> fst (shape g) * fst step) \<and>
     (0 < snd step \<longrightarrow> (snd (shape g) - 1) * snd step < snd (img_shape im) \<and>
                           snd (img_shape im) \<le> snd (shape g) * snd step)"
  using assms(1-3) ceil_div_cover [of "fst step" "fst (img_shape im)"]
    ceil_div_cover [of "snd step" "snd (img_shape im)"]
  by (cases shp)
     (simp_all add: FullGenerator_init_def default_shape_def true_div_def math_ceil_def
        FullGenerator_new_def)

theorem default_shape_tiles_raster_witness:
  "falsy NoShape \<and> falsy FalsyShape \<and>
   fst (3 :: int, 4 :: int) \<noteq> 0 \<and> snd (3 :: int, 4 :: int) \<noteq> 0 \<and>
   fits_double 3 \<and> fits_double 4 \<and> fits_double 10 \<and>
   (\<exists>g. FullGenerator_init raster10 (3, 4) (0, 0) NoShape = Inr g \<and> shape g = (4, 3)) \<and>
   (\<exists>g. FullGenerator_init raster10 (3, 4) (0, 0) FalsyShape = Inr g \<and> shape g = (4, 3))"
proof -
  have c: "\<lceil>(10 :: rat) / 3\<rceil> = 4" "\<lceil>(10 :: rat) / 4\<rceil> = 3"
    by (simp_all add: ceiling_eq_iff)
  have i: "img_shape raster10 = (10, 10)" by (simp add: raster10_def block_image_def)
  have f: "fits_double 3" "fits_double 4" "fits_double 10" by (simp_all add: fits_double_def)
  have "\<exists>g. FullGenerator_init raster10 (3, 4) (0, 0) NoShape = Inr g \<and> shape g = (4, 3)"
    using default_shape_tiles_raster [of NoShape "(3, 4)" raster10 "(0, 0)"] c i f by auto
  moreover
  have "\<exists>g. FullGenerator_init raster10 (3, 4) (0, 0) FalsyShape = Inr g \<and> shape g = (4, 3)"
    using default_shape_tiles_raster [of FalsyShape "(3, 4)" raster10 "(0, 0)"] c i f by auto
  ultimately show ?thesis using f by simp
qed

subsection \<open>Windows inside the cache\<close>









subsection \<open>Slices and blocks\<close>

text \<open>
  C8. With the padding set and window extents that fit a double, the slice computation
  returns on each axis the half-open range of the window's length that starts the floor
  of half the window below the middle. Under the pixel policy the middle is the padding
  plus the index. Under the step policy, for an index and a step size that fit, it is the
  padding plus the floor of the index plus one half, times the step size.
\<close>

theorem slices_are_half_open_around_mid:
  fixes g :: "('a, 'z) generator_scheme" and fg :: "'b full_generator"
  shows
  "(padding g = Some pad \<and> fits_double (fst window) \<and> fits_double (snd window) \<longrightarrow>
      Generator_get_slices g index window =
        Inr (half_open_around (fst pad + fst index) (fst window),
             half_open_around (snd pad + snd index) (snd window))) \<and>
   (padding fg = Some fpad \<and> fits_double (fst window) \<and> fits_double (snd window) \<and>
    cell_mid_fits (fst index) (fst (step_size fg)) \<and>
    cell_mid_fits (snd index) (snd (step_size fg)) \<longrightarrow>
      FullGenerator_get_slices fg index window =
        Inr (half_open_around
               (fst fpad + \<lfloor>(of_int (fst index) + 1 / 2) * (of_int (fst (step_size fg)) :: rat)\<rfloor>)
               (fst window),
             half_open_around
               (snd fpad + \<lfloor>(of_int (snd index) + 1 / 2) * (of_int (snd (step_size fg)) :: rat)\<rfloor>)
               (snd window)))"
  by (simp add: Generator_get_slices_def FullGenerator_get_slices_def half_open_around_def
      math_floor_def Let_def)

theorem slices_are_half_open_around_mid_witness:
  "padding loaded_pixel_generator = Some (4, 4) \<and> fits_double 4 \<and>
   Generator_get_slices loaded_pixel_generator (0, 0) (4, 4) = Inr ((2, 6), (2, 6)) \<and>
   padding loaded_grid_generator = Some (4, 4) \<and>
   cell_mid_fits 1 2 \<and> cell_mid_fits 2 2 \<and>
   FullGenerator_get_slices loaded_grid_generator (1, 2) (4, 4) = Inr ((5, 9), (7, 11))"
proof -
  have p: "padding loaded_pixel_generator = Some (4, 4)"
    "padding loaded_grid_generator = Some (4, 4)"
    "step_size loaded_grid_generator = (2, 2)"
    by (simp_all add: loaded_pixel_generator_eq loaded_grid_generator_eq)
  have f: "fits_double 4" "cell_mid_fits 1 2" "cell_mid_fits 2 2"
    by (simp_all add: fits_double_def cell_mid_fits_def)
  have a: "Generator_get_slices loaded_pixel_generator (0, 0) (4, 4) = Inr ((2, 6), (2, 6))"
    using slices_are_half_open_around_mid
      [of loaded_pixel_generator "(4, 4)" "(4, 4)" "(0, 0)" loaded_grid_generator "(4, 4)"] p f
    by (simp add: half_open_around_def)
  have b: "FullGenerator_get_slices loaded_grid_generator (1, 2) (4, 4) = Inr ((5, 9), (7, 11))"
    using slices_are_half_open_around_mid
      [of loaded_pixel_generator "(4, 4)" "(4, 4)" "(1, 2)" loaded_grid_generator "(4, 4)"] p f
    by (simp add: half_open_around_def)
  show ?thesis using a b p f by simp
qed

lemma get_blocks_after_cache:
  "Generator_get_blocks (g\<lparr>image_cache := c, loaded_itype := t\<rparr>) = Generator_get_blocks g"
  "FullGenerator_get_blocks (fg\<lparr>image_cache := c, loaded_itype := t\<rparr>) = FullGenerator_get_blocks fg"
  by (simp_all add: Generator_get_blocks_def FullGenerator_get_blocks_def Let_def
      split: option.splits)

lemma pixel_block:
  fixes g :: "('a, 'z) generator_scheme"
  assumes "load_image Generator_get_blocks g itype ws = (Inr (), g')"
  shows "\<exists>pad. padding g' = Some pad \<and>
     materialized Generator_get_blocks g'
       ((- fst pad, fst (img_shape (img g')) + fst pad),
        (- snd pad, snd (img_shape (img g')) + snd pad))"
  using assms
  by (rule load_image_ok)
     (simp add: materialized_def get_blocks_after_cache, simp add: Generator_get_blocks_def)

lemma grid_block:
  assumes "FullGenerator_load_image g itype ws = (Inr (), g')"
  shows "\<exists>pad. padding g' = Some pad \<and>
     materialized FullGenerator_get_blocks g'
       ((fst (offset g') * fst (step_size g') - fst pad,
         fst (offset g') * fst (step_size g') + fst pad + fst (shape g') * fst (step_size g')),
        (snd (offset g') * snd (step_size g') - snd pad,
         snd (offset g') * snd (step_size g') + snd pad + snd (shape g') * snd (step_size g')))"
  using assms unfolding FullGenerator_load_image_def
  by (rule load_image_ok)
     (simp add: materialized_def get_blocks_after_cache, simp add: FullGenerator_get_blocks_def Let_def)

text \<open>
  C9. After a load that returns, the block materialized is, per axis, from minus the padding
  to the raster extent plus the padding for the pixel-indexed classes, and from the offset
  times the step minus the padding to the offset times the step plus the padding plus the
  shape times the step for \<open>FullGenerator\<close>.
\<close>

theorem materialized_block_ranges:
  fixes g g' :: "('a, 'z) generator_scheme" and fg fg' :: "'b full_generator"
  shows
  "(load_image Generator_get_blocks g itype ws = (Inr (), g') \<longrightarrow>
      (\<exists>pad. padding g' = Some pad \<and>
         materialized Generator_get_blocks g'
           ((- fst pad, fst (img_shape (img g')) + fst pad),
            (- snd pad, snd (img_shape (img g')) + snd pad)))) \<and>
   (FullGenerator_load_image fg ftype fws = (Inr (), fg') \<longrightarrow>
      (\<exists>pad. padding fg' = Some pad \<and>
         materialized FullGenerator_get_blocks fg'
           ((fst (offset fg') * fst (step_size fg') - fst pad,
             fst (offset fg') * fst (step_size fg') + fst pad
               + fst (shape fg') * fst (step_size fg')),
            (snd (offset fg') * snd (step_size fg') - snd pad,
             snd (offset fg') * snd (step_size fg') + snd pad
               + snd (shape fg') * snd (step_size fg')))))"
  using pixel_block [of g itype ws g'] grid_block [of fg ftype fws fg'] by blast

theorem materialized_block_ranges_witness:
  "materialized Generator_get_blocks loaded_pixel_generator ((- 4, 14), (- 4, 14)) \<and>
   materialized FullGenerator_get_blocks loaded_grid_generator ((- 4, 14), (- 4, 14))"
proof -
  have l1: "load_image Generator_get_blocks pixel_generator ''rgb'' [(4, 4)] =
      (Inr (), loaded_pixel_generator)"
    using pixel_generator_loads by (simp add: Generator_load_image_def)
  have p: "padding loaded_pixel_generator = Some (4, 4)"
    "padding loaded_grid_generator = Some (4, 4)"
    "step_size loaded_grid_generator = (2, 2)" "shape loaded_grid_generator = (5, 5)"
    "offset loaded_grid_generator = (0, 0)"
    "img_shape (img loaded_pixel_generator) = (10, 10)"
    by (simp_all add: loaded_pixel_generator_eq loaded_grid_generator_eq raster10_def
        block_image_def)
  show ?thesis
    using materialized_block_ranges [of pixel_generator "''rgb''" "[(4, 4)]"
        loaded_pixel_generator grid_generator "''rgb''" "[(4, 4)]" loaded_grid_generator]
      l1 grid_generator_loads p
    by simp
qed

subsection \<open>The sweep\<close>

lemma for_yield_no_error:
  assumes "\<And>x. x \<in> set xs \<Longrightarrow> snd (body x) = None"
  shows "for_yield body xs = (concat (map (\<lambda>x. fst (body x)) xs), None)"
  using assms
proof (induction xs)
  case Nil
  then show ?case by simp
next
  case (Cons x xs)
  then have "snd (body x) = None" by simp
  then obtain ys where "body x = (ys, None)" by (cases "body x") simp
  with Cons show ?case by simp
qed

lemma concat_map_block:
  assumes "\<And>x. x \<in> set xs \<Longrightarrow> length (f x) = m"
  shows "length (concat (map f xs)) = length xs * m"
    and "i < length xs \<Longrightarrow> k < m \<Longrightarrow> concat (map f xs) ! (i * m + k) = f (xs ! i) ! k"
  using assms
proof (induction xs arbitrary: i)
  case Nil
  { case 1 show ?case by simp }
  { case 2 then show ?case by simp }
next
  case (Cons x xs)
  { case 1
    then show ?case using Cons.IH(1) by simp }
  { case 2
    have lx: "length (f x) = m" using 2(3) by simp
    show ?case
    proof (cases i)
      case 0
      with 2 lx show ?thesis by (simp add: nth_append)
    next
      case (Suc i')
      with 2 have "i' < length xs" by simp
      then have "concat (map f xs) ! (i' * m + k) = f (xs ! i') ! k"
        using Cons.IH(2) 2 by simp
      with Suc lx show ?thesis by (simp add: nth_append add.assoc)
    qed }
qed

lemma py_range_nth: "length (py_range n) = nat n" "i < nat n \<Longrightarrow> py_range n ! i = int i"
  by (simp_all add: py_range_def)









subsection \<open>Before a load\<close>

lemma sampler_eq:
  "sampler n sd =
     \<lparr>img = raster10, loaded_itype = Some ''rgb'',
      image_cache = Some \<lparr>nrows = 18, ncols = 18, cell = (\<lambda>i j. (int i - 4, int j - 4))\<rparr>,
      windows = Some [(4, 4)], padding = Some (4, 4),
      masks = class_masks, p_vec = None, samples = n, seed = sd\<rparr>"
  by (simp add: sampler_def RandomSampleGenerator_init_def fixture_defs)

text \<open>Both iterators check the cache first and raise the module's own error.\<close>

lemma iteration_before_load:
  "image_cache fg = None \<Longrightarrow> FullGenerator_iter fg = ([], Some unloaded_error)"
  "image_cache rg = None \<Longrightarrow> RandomSampleGenerator_iter np pr rg = ([], Some unloaded_error)"
  by (simp_all add: FullGenerator_iter_def RandomSampleGenerator_iter_def)

text \<open>Indexing does not: it fails on the padding, which is still \<open>None\<close>.\<close>

lemma indexing_before_load:
  "padding g = None \<Longrightarrow> getitem Generator_get_slices g index = Inl TypeError"
  "padding fg = None \<Longrightarrow> FullGenerator_getitem fg index = Inl TypeError"
  by (simp_all add: FullGenerator_getitem_def getitem_def Generator_get_slices_def
      FullGenerator_get_slices_def split: prod.splits)

text \<open>
  C6 fails on the code for indexing. On a generator that was never loaded,
  \<open>generator[0, 0, (4, 4)]\<close> raises a TypeError from subscripting the unset padding, not
  the error that both iterators raise in that state.
\<close>

theorem indexing_unloaded_is_type_error:
  "Generator_getitem pixel_generator (0, 0, (4, 4)) = Inl TypeError \<and>
   FullGenerator_getitem grid_generator (0, 0, (4, 4)) = Inl TypeError \<and>
   FullGenerator_iter grid_generator = ([], Some unloaded_error) \<and>
   TypeError \<noteq> unloaded_error"
  by (simp add: Generator_getitem_def FullGenerator_getitem_def getitem_def
      Generator_get_slices_def FullGenerator_get_slices_def FullGenerator_iter_def
      pixel_generator_def grid_generator_def Generator_init_def FullGenerator_new_def
      unloaded_error_def)

subsection \<open>Sampling\<close>

lemma pixel_getitem_loaded:
  assumes "padding g = Some pad" "image_cache g = Some arr"
  shows "\<exists>a. getitem Generator_get_slices g idx = Inr a"
  using assms
  by (cases idx) (simp add: getitem_def Generator_get_slices_def Let_def)

lemma sample_windows:
  assumes pad: "padding g = Some pad" and cache: "image_cache g = Some arr"
    and wins: "windows g = Some ws"
  shows "\<exists>ys. for_windows (windows g) (\<lambda>window.
            yield_item (map_sum id (\<lambda>a. (a, truth))
              (getitem Generator_get_slices g (i, j, window)))) = (ys, None) \<and>
          length ys = length ws"
proof -
  let ?body = "\<lambda>window. yield_item (map_sum id (\<lambda>a. (a, truth))
              (getitem Generator_get_slices g (i, j, window)))"
  have one: "\<exists>y. ?body w = ([y], None)" for w
    using pixel_getitem_loaded [OF pad cache, of "(i, j, w)"] by (auto simp add: yield_item_def)
  then have ok: "snd (?body w) = None" and len: "length (fst (?body w)) = 1" for w
    by (metis snd_conv, metis fst_conv length_Cons list.size(3) One_nat_def)
  have "for_yield ?body ws = (concat (map (\<lambda>w. fst (?body w)) ws), None)"
    by (rule for_yield_no_error) (rule ok)
  moreover have "length (concat (map (\<lambda>w. fst (?body w)) ws)) = length ws * 1"
    by (rule concat_map_block(1)) (rule len)
  ultimately show ?thesis by (simp add: for_windows_def wins)
qed

lemma sample_loop_count:
  fixes g :: "'a random_sample_generator"
  assumes pad: "padding g = Some pad" and cache: "image_cache g = Some arr"
    and wins: "windows g = Some ws"
    and rng: "\<And>st n pv. 0 < n \<Longrightarrow> \<exists>k st'. choice np st n pv = Inr (k, st') \<and> k < n"
    and some_mask: "masks g \<noteq> []"
    and truthy: "\<And>m. m \<in> set (masks g) \<Longrightarrow> argwhere (filled m 0) \<noteq> []"
    and le: "sample \<le> limit"
  shows "\<exists>items. sample_loop np g limit sample rs gs = (items, None) \<and>
           length items = nat (limit - sample) * length ws"
  using le
proof (induction "nat (limit - sample)" arbitrary: sample rs gs)
  case 0
  then have "\<not> sample < limit" by simp
  then show ?case using 0 by (simp add: sample_loop.simps)
next
  case (Suc d)
  then have lt: "sample < limit" and d: "d = nat (limit - (sample + 1))" by simp_all
  from rng [of "length (masks g)" rs "p_vec g"] some_mask
  obtain truth rs' where c1: "choice np rs (length (masks g)) (p_vec g) = Inr (truth, rs')"
    and t: "truth < length (masks g)" by auto
  define choices where "choices = argwhere (filled (masks g ! truth) 0)"
  have "choices \<noteq> []" unfolding choices_def using truthy t by simp
  with rng [of "length choices" gs None]
  obtain k gs' where c2: "choice np gs (length choices) None = Inr (k, gs')"
    and k: "k < length choices" by auto
  obtain i j where ij: "choices ! k = (i, j)" by (cases "choices ! k")
  from sample_windows [OF pad cache wins, of truth i j]
  obtain ys where ys: "for_windows (windows g) (\<lambda>window.
            yield_item (map_sum id (\<lambda>a. (a, truth))
              (getitem Generator_get_slices g (i, j, window)))) = (ys, None)"
    and ly: "length ys = length ws" by blast
  from Suc.hyps(1) [OF d, of rs' gs'] lt
  obtain zs where zs: "sample_loop np g limit (sample + 1) rs' gs' = (zs, None)"
    and lz: "length zs = nat (limit - (sample + 1)) * length ws" by auto
  have "sample_loop np g limit sample rs gs = (ys @ zs, None)"
    using lt c1 t c2 k ij ys zs
    by (subst sample_loop.simps) (simp add: subscript_def choices_def [symmetric] Let_def)
  moreover have "length (ys @ zs) = nat (limit - sample) * length ws"
  proof -
    have "nat (limit - sample) = Suc (nat (limit - (sample + 1)))" using lt by simp
    then show ?thesis using ly lz by simp
  qed
  ultimately show ?case by blast
qed

text \<open>
  With an integer sample count \<open>K \<ge> 0\<close>, a loaded sampler, at least one mask, no mask
  without a truthy cell and a random source that returns a value in range whenever the
  range is not empty, iteration ends normally after \<open>K\<close> times the number of windows items.
\<close>

lemma bounded_sampling_count:
  fixes g :: "'a random_sample_generator"
  assumes "padding g = Some pad" "image_cache g = Some arr" "windows g = Some ws"
    and "\<And>st n pv. 0 < n \<Longrightarrow> \<exists>k st'. choice np st n pv = Inr (k, st') \<and> k < n"
    and "masks g \<noteq> []" "\<And>m. m \<in> set (masks g) \<Longrightarrow> argwhere (filled m 0) \<noteq> []"
    and "samples g = Some limit" "0 \<le> limit"
  shows "\<exists>items. RandomSampleGenerator_iter np pr g = (items, None) \<and>
           length items = nat limit * length ws"
  using sample_loop_count [OF assms(1-6), of 0 limit] assms(2,7,8)
  by (simp add: RandomSampleGenerator_iter_def)

text \<open>
  C3 fails on the code for a sampler without a sample count. The loop condition compares
  the counter with \<open>None\<close>, so iterating a loaded sampler raises a TypeError before the
  first draw and yields nothing.
\<close>

theorem unbounded_sampling_raises:
  "RandomSampleGenerator_iter counter_random \<lparr>global_state = 0, entropy = 0\<rparr>
     (sampler None (Some 7)) = ([], Some TypeError)"
  by (simp add: RandomSampleGenerator_iter_def sampler_eq)

text \<open>With a sample count of 2 and one window the same sampler yields two items and ends.\<close>

lemma bounded_sampling_example:
  "length (fst (RandomSampleGenerator_iter counter_random \<lparr>global_state = 0, entropy = 0\<rparr>
     (sampler (Some 2) (Some 7)))) = 2 \<and>
   snd (RandomSampleGenerator_iter counter_random \<lparr>global_state = 0, entropy = 0\<rparr>
     (sampler (Some 2) (Some 7))) = None"
  by code_simp

text \<open>
  C2 fails on the code. Two runs of one sampler, with the same seed, masks and
  probabilities, draw the same classes, 1 and then 0, but different positions when the
  state behind \<open>np.random\<close> differs: the windows start at (5, 3) and (0, 1) in one run
  and at (5, 4) and (0, 0) in the other.
\<close>

theorem seeded_runs_differ:
  "window_origins (fst (RandomSampleGenerator_iter counter_random
      \<lparr>global_state = 0, entropy = 0\<rparr> (sampler (Some 2) (Some 7)))) =
     [((5, 3), 1), ((0, 1), 0)] \<and>
   window_origins (fst (RandomSampleGenerator_iter counter_random
      \<lparr>global_state = 1, entropy = 0\<rparr> (sampler (Some 2) (Some 7)))) =
     [((5, 4), 1), ((0, 0), 0)]"
  by code_simp

subsection \<open>Splitting a sweep\<close>

lemma split_jobs_takeWhile:
  "split_jobs g cs jobs =
     map (chunk g cs)
       (takeWhile (\<lambda>job. 0 < min cs (fst (shape g) - (fst (offset g) + job * cs))) jobs)"
  by (induction jobs) (simp_all add: Let_def chunk_def not_le)

lemma ceil_div_nonneg:
  assumes "0 \<le> (r::int)" "0 < n"
  shows "0 \<le> \<lceil>(of_int r :: rat) / of_int n\<rceil>"
proof -
  have "(0 :: rat) \<le> of_int r / of_int n" using assms by simp
  then have "\<lceil>0 :: rat\<rceil> \<le> \<lceil>(of_int r :: rat) / of_int n\<rceil>" by (rule ceiling_mono)
  then show ?thesis by simp
qed

text \<open>
  For a sweep whose row offset is 0, with a non-negative number of rows \<open>R\<close> and a positive
  \<open>n\<close>, \<open>split\<close> does partition the rows: at most \<open>n\<close> chunks, chunk \<open>k\<close> starting at row
  \<open>k * cs\<close> for the chunk size \<open>cs = ceil(R / n)\<close>, every chunk but the last of \<open>cs\<close> rows
  and the last ending at row \<open>R\<close>, none empty.
\<close>

lemma split_from_row_zero:
  fixes g :: "'a full_generator"
  assumes off: "fst (offset g) = 0" and rows: "0 \<le> fst (shape g)" and n: "0 < n"
  defines "cs \<equiv> \<lceil>(of_int (fst (shape g)) :: rat) / of_int n\<rceil>"
  shows "\<exists>gs. split g n = Inr gs \<and> length gs \<le> nat n \<and> (gs = [] \<longleftrightarrow> fst (shape g) = 0) \<and>
    (\<forall>k<length gs.
       offset (gs ! k) = (int k * cs, snd (offset g)) \<and>
       shape (gs ! k) =
         (if Suc k < length gs then cs else fst (shape g) - int k * cs, snd (shape g)) \<and>
       0 < fst (shape (gs ! k)) \<and> fst (shape (gs ! k)) \<le> cs)"
proof -
  define R where "R = fst (shape g)"
  define P where "P = (\<lambda>job. 0 < min cs (R - (0 + job * cs)))"
  define ts where "ts = takeWhile P (py_range n)"
  define gs where "gs = map (chunk g cs) ts"
  have sp: "split g n = Inr gs"
    using n by (simp add: split_def true_div_def math_ceil_def split_jobs_takeWhile off
        gs_def ts_def P_def R_def cs_def)
  have cover: "R \<le> cs * n"
    using ceil_div_cover(1) [OF n, of R] by (simp add: cs_def R_def)
  have cs0: "0 \<le> cs" using ceil_div_nonneg [OF rows n] by (simp add: cs_def)
  have len_le: "length ts \<le> nat n"
    unfolding ts_def using length_takeWhile_le [of P "py_range n"] by (simp add: py_range_nth)
  have nth_ts: "ts ! k = int k" if "k < length ts" for k
  proof -
    have "ts ! k = py_range n ! k" using that unfolding ts_def by (rule takeWhile_nth)
    also have "\<dots> = int k" using that len_le by (simp add: py_range_nth)
    finally show ?thesis .
  qed
  have P_ts: "P (int k)" if "k < length ts" for k
  proof -
    have "ts ! k \<in> set ts" using that by simp
    then have "P (ts ! k)" unfolding ts_def by (rule set_takeWhileD [THEN conjunct2])
    then show ?thesis using nth_ts [OF that] by simp
  qed
  have stop: "R \<le> int (length ts) * cs"
  proof (cases "length ts < nat n")
    case True
    then have "length (takeWhile P (py_range n)) < length (py_range n)"
      by (simp add: ts_def py_range_nth)
    then have "\<not> P (py_range n ! length (takeWhile P (py_range n)))"
      by (rule nth_length_takeWhile)
    then have "\<not> P (int (length ts))" using True by (simp add: ts_def [symmetric] py_range_nth)
    then consider "cs \<le> 0" | "R - int (length ts) * cs \<le> 0"
      by (auto simp: P_def not_less)
    then show ?thesis
    proof cases
      case 1
      with cs0 have "cs = 0" by simp
      with cover have "R \<le> 0" by simp
      with \<open>cs = 0\<close> show ?thesis by simp
    next
      case 2
      then show ?thesis by simp
    qed
  next
    case False
    with len_le have "int (length ts) = n" using n by simp
    with cover show ?thesis by (simp add: mult.commute)
  qed
  have empty: "gs = [] \<longleftrightarrow> R = 0"
  proof
    assume "gs = []"
    then have "length ts = 0" by (simp add: gs_def)
    with stop have "R \<le> 0" by simp
    with rows show "R = 0" by (simp add: R_def)
  next
    assume "R = 0"
    have "\<not> P (int 0)" using \<open>R = 0\<close> by (simp add: P_def)
    then have "\<not> 0 < length ts" using P_ts [of 0] by blast
    then show "gs = []" by (simp add: gs_def)
  qed
  have each: "offset (gs ! k) = (int k * cs, snd (offset g)) \<and>
       shape (gs ! k) = (if Suc k < length gs then cs else R - int k * cs, snd (shape g)) \<and>
       0 < fst (shape (gs ! k)) \<and> fst (shape (gs ! k)) \<le> cs"
    if k: "k < length gs" for k
  proof -
    have kt: "k < length ts" using k by (simp add: gs_def)
    have g: "gs ! k = chunk g cs (int k)" using kt by (simp add: gs_def nth_ts)
    have pos: "0 < min cs (R - int k * cs)" using P_ts [OF kt] by (simp add: P_def)
    have full: "min cs (R - int k * cs) = cs" if "Suc k < length gs"
    proof -
      have "P (int (Suc k))" using that by (intro P_ts) (simp add: gs_def)
      then have "(1 + int k) * cs < R" by (simp add: P_def)
      then show ?thesis by (simp add: algebra_simps)
    qed
    have last: "min cs (R - int k * cs) = R - int k * cs" if "\<not> Suc k < length gs"
    proof -
      from that k have "length ts = Suc k" by (simp add: gs_def)
      with stop have "R \<le> (1 + int k) * cs" by simp
      then show ?thesis by (simp add: algebra_simps)
    qed
    show ?thesis
      using pos full last
      by (simp add: g chunk_def FullGenerator_new_def off R_def [symmetric])
  qed
  have len_gs: "length gs \<le> nat n" using len_le by (simp add: gs_def)
  show ?thesis
    unfolding R_def [symmetric] using sp len_gs empty each by blast
qed

text \<open>The example of the specification: two chunks, at rows 0 and 3, of 3 and 2 rows.\<close>

lemma split_example:
  "map (\<lambda>g. (offset g, shape g)) (projr (split grid_generator 2)) =
     [((0, 0), (3, 5)), ((3, 0), (2, 5))]"
  by code_simp

text \<open>
  C5 fails on the code for a sweep whose row offset is not zero. The second of the two
  chunks above, with row offset 3 and 2 rows, splits into nothing: the row offset is
  subtracted from the row count as if it were a position inside the sweep.
\<close>

theorem split_of_second_chunk_is_empty:
  "(offset second_chunk, shape second_chunk) = ((3, 0), (2, 5)) \<and>
   split second_chunk 2 = Inr []"
proof -
  have "\<lceil>(2 :: rat) / 2\<rceil> = 1" by simp
  then show ?thesis
    by (simp add: split_def second_chunk_def FullGenerator_new_def true_div_def math_ceil_def
        py_range_def upto_rec1)
qed

end
